theory Spec2Isabelle
  imports Main "HOL-Library.AList"
begin

section \<open>The IR data read by the pass\<close>

text \<open>
  A \<open>Function *\<close> is modelled by the position of the function in the module's function
  list. The pass only ever appends to that list (when a runtime declaration is created),
  so a position keeps denoting the same function throughout a run.
\<close>

type_synonym fid = nat

text \<open>The two entries of the runtime-function enumeration that the pass asks for.\<close>

datatype RuntimeFunction = OMPRTL___kmpc_target_init | OMPRTL___kmpc_target_deinit

fun RuntimeFunction_name :: "RuntimeFunction \<Rightarrow> string" where
  "RuntimeFunction_name OMPRTL___kmpc_target_init = ''__kmpc_target_init''"
| "RuntimeFunction_name OMPRTL___kmpc_target_deinit = ''__kmpc_target_deinit''"

text \<open>
  Modelled from the spec: the use-edges of the IR (section 3, "Use-edge"). The user of a
  use is an instruction, which knows its enclosing function, or something that is not an
  instruction (a constant expression, a global initializer). \<open>isCallee\<close> tells whether
  the use is the called operand of a call instruction (\<open>CallBase::isCallee\<close>); the pass
  never reads it, it is there so that a direct call can be told apart from any other
  reference to the callable.
\<close>

datatype Instruction = Instr (getFunction: fid)

datatype User = InstructionUser Instruction | ConstantUser

datatype Use = Use (getUser: User) (isCallee: bool)

fun dyn_cast_Instruction :: "User \<Rightarrow> Instruction option" where
  "dyn_cast_Instruction (InstructionUser I) = Some I"
| "dyn_cast_Instruction ConstantUser = None"

text \<open>
  Modelled from the spec: a function has a name, an attribute set (a mapping from
  attribute kind to attribute value with unique keys, kept as an association list) and,
  as every IR value, the list of its uses.
\<close>

record Function =
  getName :: string
  fnAttrs :: "(string \<times> string) list"
  uses :: "Use list"

text \<open>
  What a run can touch: the module (its function list, in stored order), what was
  written to \<open>outs()\<close> (one entry per diagnostic written, the line feed that ends it
  left out) and a log of the calls made to the runtime-function resolver with the callee
  each returned.
\<close>

record world =
  modul :: "Function list"
  outs :: "string list"
  rt_calls :: "(RuntimeFunction \<times> fid) list"

section \<open>The resolver of runtime functions\<close>

primrec index_of :: "nat \<Rightarrow> string list \<Rightarrow> string \<Rightarrow> fid option" where
  "index_of i [] n = None"
| "index_of i (x # xs) n = (if x = n then Some i else index_of (Suc i) xs n)"

text \<open>\<open>Module::getFunction(Name)\<close>: the function of that name, if the module has one.\<close>

definition Module_getFunction :: "Function list \<Rightarrow> string \<Rightarrow> fid option" where
  "Module_getFunction m n = index_of 0 (map getName m) n"

definition runtime_declaration :: "RuntimeFunction \<Rightarrow> Function" where
  "runtime_declaration FnID = \<lparr>getName = RuntimeFunction_name FnID, fnAttrs = [], uses = []\<rparr>"

text \<open>
  Modelled from the spec: \<open>OpenMPIRBuilder::getOrCreateRuntimeFunction\<close> (section 4.1,
  RuntimeMarkerResolver), which is not part of the repository. It returns the declaration
  of the named runtime function and creates one, at the end of the module's function
  list and without uses, if the module has none.
\<close>

definition getOrCreateRuntimeFunction :: "world \<Rightarrow> RuntimeFunction \<Rightarrow> fid \<times> world" where
  "getOrCreateRuntimeFunction w FnID =
     (case Module_getFunction (modul w) (RuntimeFunction_name FnID) of
        Some Fn \<Rightarrow> (Fn, w\<lparr>rt_calls := rt_calls w @ [(FnID, Fn)]\<rparr>)
      | None \<Rightarrow>
          (length (modul w),
           w\<lparr>modul := modul w @ [runtime_declaration FnID],
             rt_calls := rt_calls w @ [(FnID, length (modul w))]\<rparr>))"

section \<open>The pass\<close>

text \<open>
  The loop over the uses of a marker, shared by both flags of \<open>IsKernelEntry\<close>: the flag
  is set, and the loop left, at the first use whose user is an instruction of \<open>F\<close>.
\<close>

fun CallsTarget :: "Use list \<Rightarrow> fid \<Rightarrow> bool" where
  "CallsTarget [] F = False"
| "CallsTarget (U # Us) F =
     (case dyn_cast_Instruction (getUser U) of
        Some I \<Rightarrow> if getFunction I = F then True else CallsTarget Us F
      | None \<Rightarrow> CallsTarget Us F)"

definition IsKernelEntry :: "world \<Rightarrow> fid \<Rightarrow> bool \<times> world" where
  "IsKernelEntry w F =
     (let (KernelInit, w1) = getOrCreateRuntimeFunction w OMPRTL___kmpc_target_init;
          (KernelDeinit, w2) = getOrCreateRuntimeFunction w1 OMPRTL___kmpc_target_deinit;
          CallsTargetInit = CallsTarget (uses (modul w2 ! KernelInit)) F;
          CallsTargetDeinit = CallsTarget (uses (modul w2 ! KernelDeinit)) F
      in (CallsTargetInit \<and> CallsTargetDeinit, w2))"

text \<open>
  \<open>KernelEntryFunctions\<close> is a set of pointers. Its content is kept in insertion order;
  the order in which the container hands its elements out is not fixed by the pass and is
  a parameter \<open>order\<close> of \<open>visitor\<close>.
\<close>

definition SmallPtrSet_insert :: "fid \<Rightarrow> fid list \<Rightarrow> fid list" where
  "SmallPtrSet_insert F S = (if F \<in> set S then S else S @ [F])"

text \<open>
  The number of marker declarations the module still lacks; it bounds how far the function
  list can grow under the loop that walks it.
\<close>

definition missing :: "Function list \<Rightarrow> nat" where
  "missing m =
     (if Module_getFunction m (RuntimeFunction_name OMPRTL___kmpc_target_init) = None then 1 else 0) +
     (if Module_getFunction m (RuntimeFunction_name OMPRTL___kmpc_target_deinit) = None then 1 else 0)"

text \<open>
  \<open>for (Function &F : M)\<close>: the walk over the function list, which sees the declarations
  that a classification query appends while the walk is under way.
\<close>

function scan_functions :: "fid \<Rightarrow> fid list \<Rightarrow> world \<Rightarrow> fid list \<times> world" where
  "scan_functions F KernelEntryFunctions w =
     (if F < length (modul w) then
        scan_functions (Suc F)
          (if fst (IsKernelEntry w F) then SmallPtrSet_insert F KernelEntryFunctions
           else KernelEntryFunctions)
          (snd (IsKernelEntry w F))
      else (KernelEntryFunctions, w))"
  by pat_completeness auto
termination
proof (relation "measure (\<lambda>(F, K, w). length (modul w) + missing (modul w) - F)")
  show "wf (measure (\<lambda>(F, K, w). length (modul w) + missing (modul w) - F))"
    by simp
next
  fix F :: fid and K :: "fid list" and w :: world
  assume less: "F < length (modul w)"
  have app: "index_of i (xs @ ys) n =
      (case index_of i xs n of Some k \<Rightarrow> Some k | None \<Rightarrow> index_of (i + length xs) ys n)"
    for i xs ys n
    by (induction xs arbitrary: i) (auto split: option.splits)
  have "length (modul (snd (IsKernelEntry w F))) + missing (modul (snd (IsKernelEntry w F)))
      = length (modul w) + missing (modul w)"
    by (auto simp: IsKernelEntry_def getOrCreateRuntimeFunction_def missing_def
        Module_getFunction_def app runtime_declaration_def split: option.splits)
  with less
  show "((Suc F, if fst (IsKernelEntry w F) then SmallPtrSet_insert F K else K,
          snd (IsKernelEntry w F)), F, K, w)
        \<in> measure (\<lambda>(F, K, w). length (modul w) + missing (modul w) - F)"
    by simp
qed

declare scan_functions.simps [simp del]

text \<open>
  Modelled from the spec: \<open>F->addFnAttr()\<close> is written without an argument in the source
  and the attribute class is not part of the repository (section 4.4); the attribute, a
  kind with its value, is a parameter, and adding it stores the value under the kind.
\<close>

definition addFnAttr :: "string \<times> string \<Rightarrow> Function \<Rightarrow> Function" where
  "addFnAttr a f = f\<lparr>fnAttrs := AList.update (fst a) (snd a) (fnAttrs f)\<rparr>"

fun annotate :: "string \<times> string \<Rightarrow> fid list \<Rightarrow> world \<Rightarrow> world" where
  "annotate a [] w = w"
| "annotate a (F # Fs) w =
     annotate a Fs
       (w\<lparr>outs := outs w @ [''Kernel entry function '' @ getName (modul w ! F)],
          modul := (modul w)[F := addFnAttr a (modul w ! F)]\<rparr>)"

text \<open>
  The whole pass. The result carries the final value of the local
  \<open>KernelEntryFunctions\<close> next to the world the pass leaves behind. Setting up the
  builder (\<open>OMPBuilder.initialize()\<close>) touches neither the function list nor the output
  and is left out.
\<close>

definition visitor :: "(fid list \<Rightarrow> fid list) \<Rightarrow> string \<times> string \<Rightarrow> world \<Rightarrow> fid list \<times> world" where
  "visitor order a w =
     (let (KernelEntryFunctions, w1) = scan_functions 0 [] w
      in (KernelEntryFunctions, annotate a (order KernelEntryFunctions) w1))"

datatype PreservedAnalyses = PreservedAnalyses_none | PreservedAnalyses_all

text \<open>The entry point of the new pass manager.\<close>

definition run :: "(fid list \<Rightarrow> fid list) \<Rightarrow> string \<times> string \<Rightarrow> world \<Rightarrow> PreservedAnalyses \<times> fid list \<times> world" where
  "run order a w = (PreservedAnalyses_none, visitor order a w)"

text \<open>The entry point of the legacy pass manager.\<close>

definition runOnModule :: "(fid list \<Rightarrow> fid list) \<Rightarrow> string \<times> string \<Rightarrow> world \<Rightarrow> bool \<times> fid list \<times> world" where
  "runOnModule order a w = (True, visitor order a w)"

section \<open>Notions used to state the properties\<close>

text \<open>The use list of a marker in a module as given: empty if the module does not declare it.\<close>

definition marker_uses :: "Function list \<Rightarrow> RuntimeFunction \<Rightarrow> Use list" where
  "marker_uses m FnID =
     (case Module_getFunction m (RuntimeFunction_name FnID) of
        Some Fn \<Rightarrow> uses (m ! Fn)
      | None \<Rightarrow> [])"

text \<open>The user of the use is an instruction whose enclosing function is \<open>F\<close>.\<close>

definition user_in :: "Use \<Rightarrow> fid \<Rightarrow> bool" where
  "user_in U F =
     (case getUser U of InstructionUser I \<Rightarrow> getFunction I = F | ConstantUser \<Rightarrow> False)"

text \<open>Some instruction of \<open>F\<close> has the marker as an operand, called or not.\<close>

definition references :: "Function list \<Rightarrow> fid \<Rightarrow> RuntimeFunction \<Rightarrow> bool" where
  "references m F FnID = (\<exists>U \<in> set (marker_uses m FnID). user_in U F)"

text \<open>Some call instruction of \<open>F\<close> has the marker as its called operand: a direct call.\<close>

definition calls_marker :: "Function list \<Rightarrow> fid \<Rightarrow> RuntimeFunction \<Rightarrow> bool" where
  "calls_marker m F FnID = (\<exists>U \<in> set (marker_uses m FnID). isCallee U \<and> user_in U F)"

text \<open>Some call instruction of \<open>F\<close> calls the function \<open>G\<close> of the module.\<close>

definition calls :: "Function list \<Rightarrow> fid \<Rightarrow> fid \<Rightarrow> bool" where
  "calls m F G = (G < length m \<and> (\<exists>U \<in> set (uses (m ! G)). isCallee U \<and> user_in U F))"

text \<open>The diagnostic line for a function of that name.\<close>

definition diagnostic :: "string \<Rightarrow> string" where
  "diagnostic n = ''Kernel entry function '' @ n"

text \<open>
  What is asked of the iteration order of the pointer set: it hands out the elements that
  were inserted, each once.
\<close>

definition enumerates :: "(fid list \<Rightarrow> fid list) \<Rightarrow> bool" where
  "enumerates order = (\<forall>S. distinct S \<longrightarrow> distinct (order S) \<and> set (order S) = set S)"

text \<open>
  The characters that reach the output stream, where every diagnostic is followed by the
  line feed the pass writes after the name, and the lines these characters form.
\<close>

definition stdout_text :: "string list \<Rightarrow> string" where
  "stdout_text ws = concat (map (\<lambda>l. l @ [CHR 0x0A]) ws)"

fun text_lines :: "string \<Rightarrow> string \<Rightarrow> string list" where
  "text_lines cur [] = (if cur = [] then [] else [cur])"
| "text_lines cur (c # cs) =
     (if c = CHR 0x0A then cur # text_lines [] cs else text_lines (cur @ [c]) cs)"

definition stdout_lines :: "string list \<Rightarrow> string list" where
  "stdout_lines ws = text_lines [] (stdout_text ws)"

text \<open>
  \<open>SmallPtrSet<Function *, 8>\<close> keeps up to eight elements in an inline array, in the
  order of insertion, and iterates over that array. With the ninth element it turns into
  a hash table, which it walks bucket by bucket; the bucket of a function comes from its
  address and is a parameter here (buckets without collisions).
\<close>

definition insertion_order_up_to :: "nat \<Rightarrow> (fid list \<Rightarrow> fid list) \<Rightarrow> bool" where
  "insertion_order_up_to n order = (\<forall>S. length S \<le> n \<longrightarrow> order S = S)"

definition bucket_order :: "(fid \<Rightarrow> nat) \<Rightarrow> fid list \<Rightarrow> fid list" where
  "bucket_order bucket S = (if length S \<le> 8 then S else sort_key bucket S)"

text \<open>
  The module once both markers are declared, the callee the resolver returns for a marker,
  and what a classification query computes from them.
\<close>

definition with_declaration :: "Function list \<Rightarrow> RuntimeFunction \<Rightarrow> Function list" where
  "with_declaration m FnID =
     (if Module_getFunction m (RuntimeFunction_name FnID) = None
      then m @ [runtime_declaration FnID] else m)"

definition resolve :: "Function list \<Rightarrow> Function list" where
  "resolve m =
     with_declaration (with_declaration m OMPRTL___kmpc_target_init) OMPRTL___kmpc_target_deinit"

definition callee_of :: "Function list \<Rightarrow> RuntimeFunction \<Rightarrow> fid" where
  "callee_of m FnID =
     (case Module_getFunction m (RuntimeFunction_name FnID) of
        Some Fn \<Rightarrow> Fn
      | None \<Rightarrow> length m)"

definition entry :: "Function list \<Rightarrow> fid \<Rightarrow> bool" where
  "entry m F =
     (CallsTarget (uses (m ! callee_of m OMPRTL___kmpc_target_init)) F \<and>
      CallsTarget (uses (m ! callee_of m OMPRTL___kmpc_target_deinit)) F)"

text \<open>The two resolver calls of one classification query, as they are logged.\<close>

definition query_calls :: "Function list \<Rightarrow> (RuntimeFunction \<times> fid) list" where
  "query_calls m =
     [(OMPRTL___kmpc_target_init, callee_of m OMPRTL___kmpc_target_init),
      (OMPRTL___kmpc_target_deinit, callee_of m OMPRTL___kmpc_target_deinit)]"

text \<open>The module in which the functions of \<open>K\<close> carry the attribute.\<close>

definition annotated :: "string \<times> string \<Rightarrow> fid set \<Rightarrow> Function list \<Rightarrow> Function list" where
  "annotated a K m = map (\<lambda>F. if F \<in> K then addFnAttr a (m ! F) else m ! F) [0..<length m]"

text \<open>
  The module a run leaves behind before annotation (the unit without functions is never
  queried, so nothing is resolved for it) and the functions a run classifies, in stored
  order.
\<close>

definition resolved_unit :: "Function list \<Rightarrow> Function list" where
  "resolved_unit m = (if m = [] then [] else resolve m)"

definition kernel_entries :: "Function list \<Rightarrow> fid list" where
  "kernel_entries m = filter (entry (resolved_unit m)) [0..<length (resolved_unit m)]"

section \<open>Example units\<close>

text \<open>The attribute used in the examples.\<close>

definition amdgpu_attr :: "string \<times> string" where
  "amdgpu_attr = (''amdgpu-flat-work-group-size'', ''1,256'')"

definition call_in :: "fid \<Rightarrow> Use" where
  "call_in F = Use (InstructionUser (Instr F)) True"

definition operand_in :: "fid \<Rightarrow> Use" where
  "operand_in F = Use (InstructionUser (Instr F)) False"

definition fn :: "string \<Rightarrow> Use list \<Rightarrow> Function" where
  "fn n us = \<lparr>getName = n, fnAttrs = [], uses = us\<rparr>"

text \<open>
  The scenario of section 8: \<open>A\<close> (function 0) calls both markers, \<open>B\<close> (function 1)
  calls the init marker only, \<open>C\<close> (function 2) calls neither.
\<close>

definition unit_ABC :: world where
  "unit_ABC =
     \<lparr>modul = [fn ''A'' [], fn ''B'' [], fn ''C'' [],
               fn ''__kmpc_target_init'' [call_in 0, call_in 1],
               fn ''__kmpc_target_deinit'' [call_in 0]],
      outs = [], rt_calls = []\<rparr>"

text \<open>Two kernel entries, \<open>A\<close> (function 0) and \<open>B\<close> (function 1).\<close>

definition unit_AB :: world where
  "unit_AB =
     \<lparr>modul = [fn ''A'' [], fn ''B'' [],
               fn ''__kmpc_target_init'' [call_in 1, call_in 0],
               fn ''__kmpc_target_deinit'' [call_in 0, call_in 1]],
      outs = [], rt_calls = []\<rparr>"

text \<open>
  \<open>F\<close> (function 0) stores the addresses of both markers and calls \<open>helper\<close>
  (function 1), which calls both markers; a global initializer refers to the init marker.
\<close>

definition unit_address_taken :: world where
  "unit_address_taken =
     \<lparr>modul = [fn ''F'' [], fn ''helper'' [call_in 0],
               fn ''__kmpc_target_init'' [Use ConstantUser False, call_in 1, operand_in 0],
               fn ''__kmpc_target_deinit'' [call_in 1, operand_in 0]],
      outs = [], rt_calls = []\<rparr>"

text \<open>
  \<open>main\<close> (function 0) calls \<open>helper\<close> (function 1), which calls both markers.
\<close>

definition unit_helper :: world where
  "unit_helper =
     \<lparr>modul = [fn ''main'' [], fn ''helper'' [call_in 0],
               fn ''__kmpc_target_init'' [call_in 1],
               fn ''__kmpc_target_deinit'' [call_in 1]],
      outs = [], rt_calls = []\<rparr>"

text \<open>A unit that declares neither marker, and the unit without functions.\<close>

definition unit_no_markers :: world where
  "unit_no_markers = \<lparr>modul = [fn ''f'' [], fn ''g'' []], outs = [], rt_calls = []\<rparr>"

definition unit_empty :: world where
  "unit_empty = \<lparr>modul = [], outs = [], rt_calls = []\<rparr>"

text \<open>
  Nine kernel entries, functions 0 to 8, and a memory layout in which a function stored
  later falls into an earlier bucket of the hash table.
\<close>

definition unit_nine :: world where
  "unit_nine =
     \<lparr>modul = [fn ''a'' [], fn ''b'' [], fn ''c'' [], fn ''d'' [], fn ''e'' [], fn ''f'' [],
               fn ''g'' [], fn ''h'' [], fn ''i'' [],
               fn ''__kmpc_target_init'' (map call_in [0, 1, 2, 3, 4, 5, 6, 7, 8]),
               fn ''__kmpc_target_deinit'' (map call_in [0, 1, 2, 3, 4, 5, 6, 7, 8])],
      outs = [], rt_calls = []\<rparr>"

definition later_first :: "fid \<Rightarrow> nat" where
  "later_first F = 8 - F"

text \<open>A kernel entry (function 0) whose name holds a line feed.\<close>

definition unit_line_feed :: world where
  "unit_line_feed =
     \<lparr>modul = [fn (''k'' @ [CHR 0x0A] @ ''x'') [],
               fn ''__kmpc_target_init'' [call_in 0],
               fn ''__kmpc_target_deinit'' [call_in 0]],
      outs = [], rt_calls = []\<rparr>"

section \<open>Facts about the resolver and the two loops\<close>

lemma index_of_append:
  "index_of i (xs @ ys) n =
     (case index_of i xs n of Some k \<Rightarrow> Some k | None \<Rightarrow> index_of (i + length xs) ys n)"
  by (induction xs arbitrary: i) (auto split: option.splits)

lemma index_of_Some:
  "index_of i xs n = Some k \<Longrightarrow> i \<le> k \<and> k < i + length xs \<and> xs ! (k - i) = n"
proof (induction xs arbitrary: i)
  case Nil
  then show ?case by simp
next
  case (Cons x xs)
  show ?case
  proof (cases "x = n")
    case True
    with Cons.prems show ?thesis by simp
  next
    case False
    with Cons.prems have "index_of (Suc i) xs n = Some k" by simp
    from Cons.IH [OF this] show ?thesis by (simp add: Suc_diff_le)
  qed
qed

lemma Module_getFunction_Some:
  "Module_getFunction m n = Some k \<Longrightarrow> k < length m \<and> getName (m ! k) = n"
  using index_of_Some [of 0 "map getName m" n k] by (auto simp: Module_getFunction_def)

lemma Module_getFunction_append:
  "Module_getFunction (m @ ds) n =
     (case Module_getFunction m n of
        Some k \<Rightarrow> Some k
      | None \<Rightarrow> index_of (length m) (map getName ds) n)"
  by (simp add: Module_getFunction_def index_of_append split: option.splits)

lemma Module_getFunction_names:
  "map getName m = map getName m' \<Longrightarrow> Module_getFunction m n = Module_getFunction m' n"
  by (simp add: Module_getFunction_def)

lemma getName_runtime_declaration [simp]:
  "getName (runtime_declaration X) = RuntimeFunction_name X"
  by (simp add: runtime_declaration_def)

lemma uses_runtime_declaration [simp]: "uses (runtime_declaration X) = []"
  by (simp add: runtime_declaration_def)

lemma getOrCreateRuntimeFunction_eq:
  "getOrCreateRuntimeFunction w X =
     (callee_of (with_declaration (modul w) X) X,
      w\<lparr>modul := with_declaration (modul w) X,
        rt_calls := rt_calls w @ [(X, callee_of (with_declaration (modul w) X) X)]\<rparr>)"
  by (auto simp: getOrCreateRuntimeFunction_def with_declaration_def callee_of_def
      Module_getFunction_append split: option.splits)

lemma declared_with_declaration:
  "Module_getFunction (with_declaration m X) (RuntimeFunction_name X) \<noteq> None"
  by (auto simp: with_declaration_def Module_getFunction_append split: option.splits)

lemma callee_of_with_declaration:
  "Module_getFunction m (RuntimeFunction_name X) \<noteq> None \<Longrightarrow>
   callee_of (with_declaration m Y) X = callee_of m X"
  by (auto simp: with_declaration_def callee_of_def Module_getFunction_append
      split: option.splits)

lemma with_declaration_declared:
  "Module_getFunction m (RuntimeFunction_name X) \<noteq> None \<Longrightarrow> with_declaration m X = m"
  by (simp add: with_declaration_def)

lemma declared_mono:
  "Module_getFunction m (RuntimeFunction_name X) \<noteq> None \<Longrightarrow>
   Module_getFunction (with_declaration m Y) (RuntimeFunction_name X) \<noteq> None"
  by (auto simp: with_declaration_def Module_getFunction_append split: option.splits)

lemma declared_resolve:
  "Module_getFunction (resolve m) (RuntimeFunction_name X) \<noteq> None"
proof (cases X)
  case OMPRTL___kmpc_target_init
  then show ?thesis
    unfolding resolve_def by (simp only: declared_mono declared_with_declaration not_False_eq_True)
next
  case OMPRTL___kmpc_target_deinit
  then show ?thesis
    unfolding resolve_def by (simp only: declared_with_declaration not_False_eq_True)
qed

lemma resolve_idem: "resolve (resolve m) = resolve m"
proof -
  have "with_declaration (resolve m) OMPRTL___kmpc_target_init = resolve m"
    by (rule with_declaration_declared) (rule declared_resolve)
  moreover have "with_declaration (resolve m) OMPRTL___kmpc_target_deinit = resolve m"
    by (rule with_declaration_declared) (rule declared_resolve)
  ultimately show ?thesis by (simp add: resolve_def [of "resolve m"])
qed

lemma IsKernelEntry_eq:
  "IsKernelEntry w F =
     (entry (resolve (modul w)) F,
      w\<lparr>modul := resolve (modul w), rt_calls := rt_calls w @ query_calls (resolve (modul w))\<rparr>)"
proof -
  have "callee_of (resolve (modul w)) OMPRTL___kmpc_target_init =
        callee_of (with_declaration (modul w) OMPRTL___kmpc_target_init) OMPRTL___kmpc_target_init"
    unfolding resolve_def by (rule callee_of_with_declaration) (rule declared_with_declaration)
  then show ?thesis
    by (simp add: IsKernelEntry_def getOrCreateRuntimeFunction_eq entry_def query_calls_def
        resolve_def)
qed

lemma length_resolve: "length m \<le> length (resolve m)"
  by (simp add: resolve_def with_declaration_def)

lemma SmallPtrSet_insert_fresh: "F \<notin> set K \<Longrightarrow> SmallPtrSet_insert F K = K @ [F]"
  by (simp add: SmallPtrSet_insert_def)

lemma scan_functions_eq:
  "set K \<subseteq> {..<F} \<Longrightarrow>
   scan_functions F K w =
     (if F < length (modul w) then
        (K @ filter (entry (resolve (modul w))) [F..<length (resolve (modul w))],
         w\<lparr>modul := resolve (modul w),
           rt_calls := rt_calls w @
             concat (replicate (length (resolve (modul w)) - F) (query_calls (resolve (modul w))))\<rparr>)
      else (K, w))"
proof (induction F K w rule: scan_functions.induct)
  case (1 F K w)
  let ?m = "resolve (modul w)"
  let ?w = "w\<lparr>modul := ?m, rt_calls := rt_calls w @ query_calls ?m\<rparr>"
  let ?K = "if entry ?m F then K @ [F] else K"
  show ?case
  proof (cases "F < length (modul w)")
    case False
    then show ?thesis by (simp add: scan_functions.simps [of F K w])
  next
    case True
    have fresh: "F \<notin> set K" using "1.prems" by auto
    have K: "(if fst (IsKernelEntry w F) then SmallPtrSet_insert F K else K) = ?K"
      by (simp add: IsKernelEntry_eq SmallPtrSet_insert_fresh [OF fresh])
    have w: "snd (IsKernelEntry w F) = ?w"
      by (simp add: IsKernelEntry_eq)
    have sub: "set ?K \<subseteq> {..<Suc F}" using "1.prems" by auto
    have step: "scan_functions F K w = scan_functions (Suc F) ?K ?w"
      using True by (simp add: scan_functions.simps [of F K w] K w)
    have IH: "scan_functions (Suc F) ?K ?w =
       (if Suc F < length ?m then
          (?K @ filter (entry ?m) [Suc F..<length ?m],
           w\<lparr>modul := ?m,
             rt_calls := rt_calls w @ query_calls ?m @
               concat (replicate (length ?m - Suc F) (query_calls ?m))\<rparr>)
        else (?K, ?w))"
      using "1.IH" [OF True] sub unfolding K w by (simp add: resolve_idem)
    have lt: "F < length ?m" using True length_resolve [of "modul w"] by simp
    have upt: "[F..<length ?m] = F # [Suc F..<length ?m]"
      using lt by (simp add: upt_conv_Cons)
    have rep: "length ?m - F = Suc (length ?m - Suc F)" using lt by simp
    show ?thesis
    proof (cases "Suc F < length ?m")
      case True
      with \<open>F < length (modul w)\<close> show ?thesis
        unfolding step IH upt rep by simp
    next
      case False
      with lt have "length ?m = Suc F" by simp
      with \<open>F < length (modul w)\<close> show ?thesis
        unfolding step IH by simp
    qed
  qed
qed

lemma getName_addFnAttr [simp]: "getName (addFnAttr a f) = getName f"
  by (simp add: addFnAttr_def)

lemma uses_addFnAttr [simp]: "uses (addFnAttr a f) = uses f"
  by (simp add: addFnAttr_def)

lemma addFnAttr_idem [simp]: "addFnAttr a (addFnAttr a f) = addFnAttr a f"
  by (simp add: addFnAttr_def)

lemma length_annotated [simp]: "length (annotated a K m) = length m"
  by (simp add: annotated_def)

lemma annotated_nth:
  "F < length m \<Longrightarrow> annotated a K m ! F = (if F \<in> K then addFnAttr a (m ! F) else m ! F)"
  by (simp add: annotated_def)

lemma annotated_empty [simp]: "annotated a {} m = m"
  by (simp add: annotated_def map_nth)

lemma annotated_update:
  "annotated a K (m[F := addFnAttr a (m ! F)]) = annotated a (insert F K) m"
proof (rule nth_equalityI)
  show "length (annotated a K (m[F := addFnAttr a (m ! F)])) = length (annotated a (insert F K) m)"
    by simp
next
  fix i
  assume "i < length (annotated a K (m[F := addFnAttr a (m ! F)]))"
  then have i: "i < length m" by simp
  show "annotated a K (m[F := addFnAttr a (m ! F)]) ! i = annotated a (insert F K) m ! i"
    using i by (cases "i = F") (simp_all add: annotated_nth)
qed

lemma annotated_idem [simp]: "annotated a K (annotated a K m) = annotated a K m"
  by (rule nth_equalityI) (auto simp: annotated_nth)

lemma getName_update:
  "getName (m[F := addFnAttr a (m ! F)] ! G) = getName (m ! G)"
  by (cases "F < length m") (auto simp: nth_list_update list_update_beyond)

lemma annotate_eq:
  "annotate a Fs w =
     w\<lparr>outs := outs w @ map (\<lambda>F. diagnostic (getName (modul w ! F))) Fs,
       modul := annotated a (set Fs) (modul w)\<rparr>"
proof (induction Fs arbitrary: w)
  case Nil
  show ?case by simp
next
  case (Cons F Fs)
  show ?case
    by (simp add: Cons.IH getName_update annotated_update diagnostic_def)
qed

lemma names_annotated [simp]: "map getName (annotated a K m) = map getName m"
  by (rule nth_equalityI) (auto simp: annotated_nth)

lemma distinct_kernel_entries [simp]: "distinct (kernel_entries m)"
  by (simp add: kernel_entries_def)

lemma visitor_eq:
  "visitor order a w =
     (kernel_entries (modul w),
      w\<lparr>modul := annotated a (set (order (kernel_entries (modul w)))) (resolved_unit (modul w)),
        outs := outs w @
          map (\<lambda>F. diagnostic (getName (resolved_unit (modul w) ! F)))
            (order (kernel_entries (modul w))),
        rt_calls := rt_calls w @
          concat (replicate (length (resolved_unit (modul w)))
            (query_calls (resolved_unit (modul w))))\<rparr>)"
proof (cases "modul w = []")
  case True
  then have "scan_functions 0 [] w = ([], w)"
    by (simp add: scan_functions_eq)
  with True show ?thesis
    by (simp add: visitor_def annotate_eq kernel_entries_def resolved_unit_def)
next
  case False
  then have "scan_functions 0 [] w =
     (kernel_entries (modul w),
      w\<lparr>modul := resolved_unit (modul w),
        rt_calls := rt_calls w @
          concat (replicate (length (resolved_unit (modul w)))
            (query_calls (resolved_unit (modul w))))\<rparr>)"
    by (simp add: scan_functions_eq kernel_entries_def resolved_unit_def)
  then show ?thesis
    by (simp add: visitor_def annotate_eq)
qed

lemma CallsTarget_iff: "CallsTarget Us F \<longleftrightarrow> (\<exists>U \<in> set Us. user_in U F)"
proof (induction Us)
  case Nil
  show ?case by simp
next
  case (Cons U Us)
  show ?case
  proof (cases "getUser U")
    case (InstructionUser I)
    with Cons.IH show ?thesis by (simp add: user_in_def)
  next
    case ConstantUser
    with Cons.IH show ?thesis by (simp add: user_in_def)
  qed
qed

lemma resolve_append:
  "\<exists>ds. resolve m = m @ ds \<and> (\<forall>d \<in> set ds. uses d = [])"
  by (auto simp: resolve_def with_declaration_def)

lemma resolve_declared:
  assumes "Module_getFunction m (RuntimeFunction_name OMPRTL___kmpc_target_init) \<noteq> None"
    and "Module_getFunction m (RuntimeFunction_name OMPRTL___kmpc_target_deinit) \<noteq> None"
  shows "resolve m = m"
proof -
  have "with_declaration m OMPRTL___kmpc_target_init = m"
    using assms(1) by (rule with_declaration_declared)
  moreover have "with_declaration m OMPRTL___kmpc_target_deinit = m"
    using assms(2) by (rule with_declaration_declared)
  ultimately show ?thesis by (simp add: resolve_def)
qed

lemma uses_callee_resolve:
  "uses (resolve m ! callee_of (resolve m) X) = marker_uses m X"
proof -
  obtain ds where ds: "resolve m = m @ ds" and nouses: "\<forall>d \<in> set ds. uses d = []"
    using resolve_append [of m] by blast
  obtain k where k: "Module_getFunction (resolve m) (RuntimeFunction_name X) = Some k"
    using declared_resolve [of m X] by blast
  then have callee: "callee_of (resolve m) X = k" by (simp add: callee_of_def)
  show ?thesis
  proof (cases "Module_getFunction m (RuntimeFunction_name X)")
    case (Some j)
    with k have "k = j" by (simp add: ds Module_getFunction_append)
    moreover have "j < length m" using Some by (simp add: Module_getFunction_Some)
    ultimately have "resolve m ! k = m ! j" by (simp add: ds nth_append)
    then show ?thesis unfolding callee by (simp add: marker_uses_def Some)
  next
    case None
    with k have "index_of (length m) (map getName ds) (RuntimeFunction_name X) = Some k"
      by (simp add: ds Module_getFunction_append)
    from index_of_Some [OF this] have "length m \<le> k" and "k - length m < length ds"
      by auto
    then have "resolve m ! k \<in> set ds" by (simp add: ds nth_append)
    with nouses show ?thesis by (simp add: callee marker_uses_def None)
  qed
qed

lemma entry_resolve:
  "entry (resolve m) F \<longleftrightarrow>
     references m F OMPRTL___kmpc_target_init \<and> references m F OMPRTL___kmpc_target_deinit"
  by (simp add: entry_def uses_callee_resolve CallsTarget_iff references_def)

lemma references_declared:
  "references m F X \<Longrightarrow> Module_getFunction m (RuntimeFunction_name X) \<noteq> None"
  by (cases "Module_getFunction m (RuntimeFunction_name X)")
    (auto simp: references_def marker_uses_def)

lemma kernel_entries_iff:
  "F \<in> set (kernel_entries m) \<longleftrightarrow>
     F < length m \<and> references m F OMPRTL___kmpc_target_init \<and>
     references m F OMPRTL___kmpc_target_deinit"
proof (cases "m = []")
  case True
  then show ?thesis by (simp add: kernel_entries_def resolved_unit_def)
next
  case False
  show ?thesis
  proof (cases "references m F OMPRTL___kmpc_target_init \<and>
      references m F OMPRTL___kmpc_target_deinit")
    case True
    then have "resolve m = m"
      by (intro resolve_declared references_declared) auto
    with True False show ?thesis
      using entry_resolve [of m F] by (simp add: kernel_entries_def resolved_unit_def)
  next
    case False
    then show ?thesis
      using entry_resolve [of m F] \<open>m \<noteq> []\<close>
      by (auto simp: kernel_entries_def resolved_unit_def)
  qed
qed

lemma resolved_unit_nth: "F < length m \<Longrightarrow> resolved_unit m ! F = m ! F"
proof -
  assume F: "F < length m"
  obtain ds where "resolve m = m @ ds" using resolve_append [of m] by blast
  with F show ?thesis by (auto simp: resolved_unit_def nth_append)
qed

lemma length_resolved_unit: "length m \<le> length (resolved_unit m)"
  using length_resolve [of m] by (simp add: resolved_unit_def)

lemma kernel_entries_less: "F \<in> set (kernel_entries m) \<Longrightarrow> F < length m"
  by (simp add: kernel_entries_iff)

lemma callee_of_names:
  "map getName m = map getName m' \<Longrightarrow> length m = length m' \<Longrightarrow> callee_of m X = callee_of m' X"
  by (auto simp: callee_of_def Module_getFunction_names [of m m'] split: option.splits)

lemma resolved_unit_annotated:
  "resolved_unit (annotated a K (resolved_unit m)) = annotated a K (resolved_unit m)"
proof (cases "m = []")
  case True
  then show ?thesis by (simp add: resolved_unit_def annotated_def)
next
  case False
  have len: "annotated a K (resolve m) \<noteq> []"
    using False length_resolve [of m] length_annotated [of a K "resolve m"]
    by (metis le_zero_eq length_0_conv)
  have decl: "Module_getFunction (annotated a K (resolve m)) (RuntimeFunction_name X) \<noteq> None" for X
    using declared_resolve [of m X]
    by (simp add: Module_getFunction_names [of "annotated a K (resolve m)" "resolve m"])
  have "resolve (annotated a K (resolve m)) = annotated a K (resolve m)"
    by (rule resolve_declared) (rule decl)+
  with False len show ?thesis by (simp add: resolved_unit_def)
qed

lemma callee_of_less:
  "Module_getFunction m (RuntimeFunction_name X) \<noteq> None \<Longrightarrow> callee_of m X < length m"
  by (auto simp: callee_of_def dest: Module_getFunction_Some)

lemma entry_annotated:
  assumes "\<And>X. Module_getFunction m (RuntimeFunction_name X) \<noteq> None"
  shows "entry (annotated a K m) F = entry m F"
proof -
  have c: "callee_of (annotated a K m) X = callee_of m X" for X
    by (rule callee_of_names) simp_all
  have u: "uses (annotated a K m ! callee_of m X) = uses (m ! callee_of m X)" for X
    using callee_of_less [OF assms, of X] by (simp add: annotated_nth)
  show ?thesis by (simp add: entry_def c u)
qed

lemma kernel_entries_annotated:
  "kernel_entries (annotated a K (resolved_unit m)) = kernel_entries m"
proof (cases "m = []")
  case True
  then show ?thesis by (simp add: kernel_entries_def resolved_unit_def annotated_def)
next
  case False
  have e: "entry (annotated a K (resolve m)) = entry (resolve m)"
    by (rule ext) (rule entry_annotated, rule declared_resolve)
  have r: "resolved_unit m = resolve m" using False by (simp add: resolved_unit_def)
  have "kernel_entries (annotated a K (resolve m)) =
      filter (entry (annotated a K (resolve m))) [0..<length (annotated a K (resolve m))]"
    using resolved_unit_annotated [of a K m] unfolding r
    by (simp add: kernel_entries_def)
  then show ?thesis
    by (simp add: r e kernel_entries_def [of m])
qed

lemma query_calls_annotated: "query_calls (annotated a K m) = query_calls m"
  by (simp add: query_calls_def callee_of_names [of "annotated a K m" m])

lemma diagnostics_names:
  "set Fs \<subseteq> set (kernel_entries m) \<Longrightarrow>
   map (\<lambda>F. diagnostic (getName (resolved_unit m ! F))) Fs =
   map (\<lambda>F. diagnostic (getName (m ! F))) Fs"
  by (auto simp: resolved_unit_nth dest!: kernel_entries_less)

lemma enumeratesD:
  "enumerates order \<Longrightarrow> distinct S \<Longrightarrow> distinct (order S) \<and> set (order S) = set S"
  by (simp add: enumerates_def)

lemma user_in_instruction:
  "user_in U F \<longleftrightarrow> (\<exists>I. getUser U = InstructionUser I \<and> getFunction I = F)"
  by (cases "getUser U") (simp_all add: user_in_def)

section \<open>The classification\<close>

text \<open>
  C1, as stated, fails: function 0 of \<open>unit_address_taken\<close> contains no call of either
  marker (it only stores their addresses), and the pass classifies it.
\<close>

theorem direct_call_classification_counterexample:
  "\<not> (0 \<in> set (fst (visitor id amdgpu_attr unit_address_taken)) \<longleftrightarrow>
        calls_marker (modul unit_address_taken) 0 OMPRTL___kmpc_target_init \<and>
        calls_marker (modul unit_address_taken) 0 OMPRTL___kmpc_target_deinit)"
  by code_simp

text \<open>
  C1, amended: a function of the unit is in \<open>KernelEntryFunctions\<close> if and only if some
  instruction of it has the init marker as an operand and some instruction of it has the
  deinit marker as an operand, whether or not these instructions are calls of the markers.
  A function with instructions that refer to one marker only, or to neither, is left out.
\<close>

theorem kernel_entry_iff_references:
  "F \<in> set (fst (visitor order a w)) \<longleftrightarrow>
     F < length (modul w) \<and>
     references (modul w) F OMPRTL___kmpc_target_init \<and>
     references (modul w) F OMPRTL___kmpc_target_deinit"
  by (simp add: visitor_eq kernel_entries_iff)

theorem kernel_entry_iff_references_witness:
  "0 \<in> set (fst (visitor id amdgpu_attr unit_ABC)) \<and>
   references (modul unit_ABC) 0 OMPRTL___kmpc_target_init \<and>
   references (modul unit_ABC) 0 OMPRTL___kmpc_target_deinit \<and>
   1 \<notin> set (fst (visitor id amdgpu_attr unit_ABC)) \<and>
   references (modul unit_ABC) 1 OMPRTL___kmpc_target_init \<and>
   \<not> references (modul unit_ABC) 1 OMPRTL___kmpc_target_deinit \<and>
   2 \<notin> set (fst (visitor id amdgpu_attr unit_ABC)) \<and>
   \<not> references (modul unit_ABC) 2 OMPRTL___kmpc_target_init"
  using kernel_entry_iff_references [of 0 id amdgpu_attr unit_ABC]
    kernel_entry_iff_references [of 1 id amdgpu_attr unit_ABC]
    kernel_entry_iff_references [of 2 id amdgpu_attr unit_ABC]
  by code_simp

text \<open>
  C4, as stated, fails: function 0 of \<open>unit_address_taken\<close> calls neither marker, it
  calls function 1, which calls both, and the pass classifies function 0.
\<close>

theorem helper_exclusion_counterexample:
  "\<not> calls_marker (modul unit_address_taken) 0 OMPRTL___kmpc_target_init \<and>
   \<not> calls_marker (modul unit_address_taken) 0 OMPRTL___kmpc_target_deinit \<and>
   calls (modul unit_address_taken) 0 1 \<and>
   calls_marker (modul unit_address_taken) 1 OMPRTL___kmpc_target_init \<and>
   calls_marker (modul unit_address_taken) 1 OMPRTL___kmpc_target_deinit \<and>
   0 \<in> set (fst (visitor id amdgpu_attr unit_address_taken))"
  by code_simp

text \<open>
  C4, amended: a function that lacks an instruction referring to the init marker or lacks
  one referring to the deinit marker is not classified, also when it calls a helper that
  calls both markers: what the callees of a function do is never looked at.
\<close>

theorem helper_calls_do_not_classify:
  assumes "\<not> (references (modul w) F OMPRTL___kmpc_target_init \<and>
               references (modul w) F OMPRTL___kmpc_target_deinit)"
    and "calls (modul w) F H"
    and "calls_marker (modul w) H OMPRTL___kmpc_target_init"
    and "calls_marker (modul w) H OMPRTL___kmpc_target_deinit"
  shows "F \<notin> set (fst (visitor order a w))"
  using assms(1) by (simp add: visitor_eq kernel_entries_iff)

theorem helper_calls_do_not_classify_witness:
  "\<not> (references (modul unit_helper) 0 OMPRTL___kmpc_target_init \<and>
       references (modul unit_helper) 0 OMPRTL___kmpc_target_deinit) \<and>
   calls (modul unit_helper) 0 1 \<and>
   calls_marker (modul unit_helper) 1 OMPRTL___kmpc_target_init \<and>
   calls_marker (modul unit_helper) 1 OMPRTL___kmpc_target_deinit \<and>
   0 \<notin> set (fst (visitor id amdgpu_attr unit_helper)) \<and>
   fst (visitor id amdgpu_attr unit_helper) = [1]"
proof -
  have 1: "\<not> (references (modul unit_helper) 0 OMPRTL___kmpc_target_init \<and>
       references (modul unit_helper) 0 OMPRTL___kmpc_target_deinit)"
    by code_simp
  have 2: "calls (modul unit_helper) 0 1" by code_simp
  have 3: "calls_marker (modul unit_helper) 1 OMPRTL___kmpc_target_init" by code_simp
  have 4: "calls_marker (modul unit_helper) 1 OMPRTL___kmpc_target_deinit" by code_simp
  have 5: "fst (visitor id amdgpu_attr unit_helper) = [1]" by code_simp
  from helper_calls_do_not_classify [OF 1 2 3 4, of id amdgpu_attr] 1 2 3 4 5
  show ?thesis by blast
qed

text \<open>
  C10: the flag of a marker is set for \<open>F\<close> exactly when the use list of the marker holds
  a use whose user is an instruction with enclosing function \<open>F\<close>. Uses by anything that
  is not an instruction, and uses by instructions of other functions, do not count:
  dropping them from the list leaves the flag as it is.
\<close>

theorem only_instructions_of_F_set_flag:
  "(CallsTarget Us F \<longleftrightarrow>
      (\<exists>U \<in> set Us. \<exists>I. getUser U = InstructionUser I \<and> getFunction I = F)) \<and>
   CallsTarget (filter (\<lambda>U. getUser U \<noteq> ConstantUser) Us) F = CallsTarget Us F \<and>
   CallsTarget (filter (\<lambda>U. user_in U F) Us) F = CallsTarget Us F"
proof (intro conjI)
  show "CallsTarget Us F \<longleftrightarrow>
      (\<exists>U \<in> set Us. \<exists>I. getUser U = InstructionUser I \<and> getFunction I = F)"
    by (simp add: CallsTarget_iff user_in_instruction)
  have "user_in U F \<and> getUser U \<noteq> ConstantUser \<longleftrightarrow> user_in U F" for U
    by (auto simp: user_in_def)
  then show "CallsTarget (filter (\<lambda>U. getUser U \<noteq> ConstantUser) Us) F = CallsTarget Us F"
    by (auto simp: CallsTarget_iff)
  show "CallsTarget (filter (\<lambda>U. user_in U F) Us) F = CallsTarget Us F"
    by (auto simp: CallsTarget_iff)
qed

theorem only_instructions_of_F_set_flag_witness:
  "\<not> CallsTarget [Use ConstantUser False, call_in 1] 0 \<and>
   \<not> (\<exists>U \<in> set [Use ConstantUser False, call_in 1].
        \<exists>I. getUser U = InstructionUser I \<and> getFunction I = 0) \<and>
   CallsTarget [Use ConstantUser False, call_in 1, operand_in 0] 0 \<and>
   CallsTarget (filter (\<lambda>U. user_in U 0) [Use ConstantUser False, call_in 1, operand_in 0]) 0 \<and>
   filter (\<lambda>U. user_in U 0) [Use ConstantUser False, call_in 1, operand_in 0] = [operand_in 0]"
proof -
  have 1: "\<not> CallsTarget [Use ConstantUser False, call_in 1] 0" by code_simp
  have 2: "CallsTarget [Use ConstantUser False, call_in 1, operand_in 0] 0" by code_simp
  have 3: "filter (\<lambda>U. user_in U 0) [Use ConstantUser False, call_in 1, operand_in 0]
      = [operand_in 0]"
    by code_simp
  from only_instructions_of_F_set_flag [of "[Use ConstantUser False, call_in 1]" 0]
    only_instructions_of_F_set_flag [of "[Use ConstantUser False, call_in 1, operand_in 0]" 0]
    1 2 3
  show ?thesis by blast
qed

section \<open>The two adapters\<close>

text \<open>
  C2: on the same unit, the entry point of the new pass manager and the entry point of the
  legacy pass manager leave the same \<open>KernelEntryFunctions\<close> and the same world (the same
  attributes on the same functions, the same diagnostics): both run \<open>visitor\<close>.
\<close>

theorem adapters_agree:
  "snd (run order a w) = snd (runOnModule order a w) \<and>
   snd (run order a w) = visitor order a w"
  by (simp add: run_def runOnModule_def)

theorem adapters_agree_witness:
  "snd (run id amdgpu_attr unit_ABC) = snd (runOnModule id amdgpu_attr unit_ABC) \<and>
   fst (snd (run id amdgpu_attr unit_ABC)) = [0]"
  using adapters_agree [of id amdgpu_attr unit_ABC] by code_simp

text \<open>
  C6: the legacy entry point returns \<open>true\<close> for every unit, also when no function was
  classified; the walk over the functions always ends, so it does return.
\<close>

theorem runOnModule_returns_true:
  "fst (runOnModule order a w) = True"
  by (simp add: runOnModule_def)

theorem runOnModule_returns_true_witness:
  "fst (runOnModule id amdgpu_attr unit_empty) = True \<and>
   fst (snd (runOnModule id amdgpu_attr unit_empty)) = [] \<and>
   fst (runOnModule id amdgpu_attr unit_no_markers) = True \<and>
   fst (snd (runOnModule id amdgpu_attr unit_no_markers)) = []"
  using runOnModule_returns_true [of id amdgpu_attr unit_empty]
    runOnModule_returns_true [of id amdgpu_attr unit_no_markers]
  by code_simp

lemma kernel_entries_stored_order:
  "kernel_entries m =
     filter (\<lambda>F. references m F OMPRTL___kmpc_target_init \<and>
                 references m F OMPRTL___kmpc_target_deinit) [0..<length m]"
proof (rule sorted_distinct_set_unique)
  show "sorted (kernel_entries m)"
    by (simp add: kernel_entries_def sorted_wrt_filter)
  show "sorted (filter (\<lambda>F. references m F OMPRTL___kmpc_target_init \<and>
                 references m F OMPRTL___kmpc_target_deinit) [0..<length m])"
    by (simp add: sorted_wrt_filter)
  show "set (kernel_entries m) =
      set (filter (\<lambda>F. references m F OMPRTL___kmpc_target_init \<and>
                 references m F OMPRTL___kmpc_target_deinit) [0..<length m])"
    by (auto simp: kernel_entries_iff)
qed simp_all

lemma modul_visitor:
  "enumerates order \<Longrightarrow>
   modul (snd (visitor order a w)) =
     annotated a (set (kernel_entries (modul w))) (resolved_unit (modul w))"
  by (simp add: visitor_eq enumeratesD)

lemma outs_visitor:
  assumes "enumerates order"
  shows "outs (snd (visitor order a w)) =
     outs w @ map (\<lambda>F. diagnostic (getName (modul w ! F))) (order (kernel_entries (modul w)))"
proof -
  have "set (order (kernel_entries (modul w))) \<subseteq> set (kernel_entries (modul w))"
    using enumeratesD [OF assms, of "kernel_entries (modul w)"] by simp
  from diagnostics_names [OF this] show ?thesis by (simp add: visitor_eq)
qed

lemma enumerates_id: "enumerates id"
  by (simp add: enumerates_def)

section \<open>Annotation and diagnostics\<close>

text \<open>
  C5: a function of the unit that is not in \<open>KernelEntryFunctions\<close> is left as it was,
  its attribute set included; each function in \<open>KernelEntryFunctions\<close> gets the
  attribute; and the lines written are those naming the functions in
  \<open>KernelEntryFunctions\<close>. The iteration order of the pointer set is any order that
  hands out each inserted element once.
\<close>

theorem frame_of_annotation:
  assumes "enumerates order"
  shows "(\<forall>F < length (modul w). F \<notin> set (fst (visitor order a w)) \<longrightarrow>
            modul (snd (visitor order a w)) ! F = modul w ! F) \<and>
         (\<forall>F \<in> set (fst (visitor order a w)).
            modul (snd (visitor order a w)) ! F = addFnAttr a (modul w ! F)) \<and>
         set (drop (length (outs w)) (outs (snd (visitor order a w)))) =
           (\<lambda>F. diagnostic (getName (modul w ! F))) ` set (fst (visitor order a w))"
proof (intro conjI allI ballI impI)
  fix F
  assume F: "F < length (modul w)" and notin: "F \<notin> set (fst (visitor order a w))"
  from F have "F < length (resolved_unit (modul w))"
    using length_resolved_unit [of "modul w"] by simp
  with notin show "modul (snd (visitor order a w)) ! F = modul w ! F"
    by (simp add: modul_visitor [OF assms] annotated_nth resolved_unit_nth [OF F])
      (simp add: visitor_eq)
next
  fix F
  assume "F \<in> set (fst (visitor order a w))"
  then have K: "F \<in> set (kernel_entries (modul w))" by (simp add: visitor_eq)
  then have F: "F < length (modul w)" by (rule kernel_entries_less)
  then have "F < length (resolved_unit (modul w))"
    using length_resolved_unit [of "modul w"] by simp
  with K show "modul (snd (visitor order a w)) ! F = addFnAttr a (modul w ! F)"
    by (simp add: modul_visitor [OF assms] annotated_nth resolved_unit_nth [OF F])
next
  have "set (order (kernel_entries (modul w))) = set (kernel_entries (modul w))"
    using enumeratesD [OF assms, of "kernel_entries (modul w)"] by simp
  then show "set (drop (length (outs w)) (outs (snd (visitor order a w)))) =
      (\<lambda>F. diagnostic (getName (modul w ! F))) ` set (fst (visitor order a w))"
    by (simp add: outs_visitor [OF assms]) (simp add: visitor_eq)
qed

theorem frame_of_annotation_witness:
  "enumerates rev \<and>
   fst (visitor rev amdgpu_attr unit_ABC) = [0] \<and>
   modul (snd (visitor rev amdgpu_attr unit_ABC)) ! 1 = modul unit_ABC ! 1 \<and>
   modul (snd (visitor rev amdgpu_attr unit_ABC)) ! 2 = modul unit_ABC ! 2 \<and>
   fnAttrs (modul (snd (visitor rev amdgpu_attr unit_ABC)) ! 0) = [amdgpu_attr] \<and>
   outs (snd (visitor rev amdgpu_attr unit_ABC)) = [''Kernel entry function A'']"
proof -
  have e: "enumerates rev" by (simp add: enumerates_def)
  have "fst (visitor rev amdgpu_attr unit_ABC) = [0] \<and>
   modul (snd (visitor rev amdgpu_attr unit_ABC)) ! 1 = modul unit_ABC ! 1 \<and>
   modul (snd (visitor rev amdgpu_attr unit_ABC)) ! 2 = modul unit_ABC ! 2 \<and>
   fnAttrs (modul (snd (visitor rev amdgpu_attr unit_ABC)) ! 0) = [amdgpu_attr] \<and>
   outs (snd (visitor rev amdgpu_attr unit_ABC)) = [''Kernel entry function A'']"
    by code_simp
  with e frame_of_annotation [OF e, of unit_ABC amdgpu_attr] show ?thesis by simp
qed

lemma text_lines_entry:
  "CHR 0x0A \<notin> set l \<Longrightarrow> text_lines cur (l @ CHR 0x0A # rest) = (cur @ l) # text_lines [] rest"
  by (induction l arbitrary: cur) auto

lemma stdout_lines_no_line_feed:
  "\<forall>l \<in> set ws. CHR 0x0A \<notin> set l \<Longrightarrow> stdout_lines ws = ws"
  unfolding stdout_lines_def stdout_text_def
  by (induction ws) (simp_all add: text_lines_entry)

lemma enumerates_bucket_order: "enumerates (bucket_order bucket)"
  by (simp add: enumerates_def bucket_order_def)

lemma insertion_order_bucket_order: "insertion_order_up_to 8 (bucket_order bucket)"
  by (simp add: insertion_order_up_to_def bucket_order_def)

lemma no_line_feed_prefix: "CHR 0x0A \<notin> set ''Kernel entry function ''"
  by simp

text \<open>
  C8, as stated, fails: the only kernel entry of \<open>unit_line_feed\<close> has a name that holds
  a line feed, and the one diagnostic written for it makes two lines of output, the second
  of which is not of the form \<open>Kernel entry function <name>\<close>.
\<close>

theorem one_line_per_function_counterexample:
  "fst (visitor id amdgpu_attr unit_line_feed) = [0] \<and>
   stdout_lines (outs (snd (visitor id amdgpu_attr unit_line_feed))) =
     [''Kernel entry function k'', ''x'']"
  by code_simp

text \<open>
  C8, amended: the run goes once through the pointer set and, for the function at hand,
  writes \<open>Kernel entry function <name>\<close> and a line feed and adds the attribute to it. So
  the functions that are annotated are those a diagnostic is written for, one diagnostic
  each; every other function of the unit is left as it was and nothing is written for it.
  When no name of a kernel entry holds a line feed, the output consists of exactly one
  line \<open>Kernel entry function <name>\<close> for each annotated function.
\<close>

theorem one_diagnostic_per_annotated_function:
  assumes "enumerates order"
  shows "distinct (order (fst (visitor order a w))) \<and>
         set (order (fst (visitor order a w))) = set (fst (visitor order a w)) \<and>
         outs (snd (visitor order a w)) =
           outs w @ map (\<lambda>F. ''Kernel entry function '' @ getName (modul w ! F))
                      (order (fst (visitor order a w))) \<and>
         (\<forall>F < length (modul w).
            modul (snd (visitor order a w)) ! F =
              (if F \<in> set (order (fst (visitor order a w)))
               then addFnAttr a (modul w ! F) else modul w ! F)) \<and>
         length (modul (snd (visitor order a w))) = length (resolved_unit (modul w)) \<and>
         (\<forall>F < length (modul (snd (visitor order a w))). length (modul w) \<le> F \<longrightarrow>
            F \<notin> set (order (fst (visitor order a w))) \<and>
            modul (snd (visitor order a w)) ! F = resolved_unit (modul w) ! F) \<and>
         length (outs (snd (visitor order a w))) =
           length (outs w) + card (set (fst (visitor order a w))) \<and>
         ((\<forall>F \<in> set (fst (visitor order a w)). CHR 0x0A \<notin> set (getName (modul w ! F))) \<longrightarrow>
            stdout_lines (drop (length (outs w)) (outs (snd (visitor order a w)))) =
              map (\<lambda>F. ''Kernel entry function '' @ getName (modul w ! F))
                (order (fst (visitor order a w))))"
proof -
  let ?K = "kernel_entries (modul w)"
  let ?L = "map (\<lambda>F. ''Kernel entry function '' @ getName (modul w ! F)) (order ?K)"
  have K: "fst (visitor order a w) = ?K" by (simp add: visitor_eq)
  have d: "distinct (order ?K)" and s: "set (order ?K) = set ?K"
    using enumeratesD [OF assms, of ?K] by simp_all
  have len: "length (order ?K) = card (set ?K)"
    using distinct_card [OF d] s by simp
  have o: "outs (snd (visitor order a w)) = outs w @ ?L"
    using outs_visitor [OF assms, of a w] by (simp add: diagnostic_def)
  have m: "modul (snd (visitor order a w)) = annotated a (set ?K) (resolved_unit (modul w))"
    by (rule modul_visitor [OF assms])
  have inside: "modul (snd (visitor order a w)) ! F =
      (if F \<in> set (order ?K) then addFnAttr a (modul w ! F) else modul w ! F)"
    if F: "F < length (modul w)" for F
  proof -
    from F have "F < length (resolved_unit (modul w))"
      using length_resolved_unit [of "modul w"] by simp
    then show ?thesis
      by (simp add: m s annotated_nth resolved_unit_nth [OF F])
  qed
  have beyond: "F \<notin> set (order ?K) \<and>
      modul (snd (visitor order a w)) ! F = resolved_unit (modul w) ! F"
    if "F < length (modul (snd (visitor order a w)))" and "length (modul w) \<le> F" for F
  proof -
    from that(2) have "F \<notin> set ?K" by (auto dest: kernel_entries_less)
    with that(1) show ?thesis by (simp add: m s annotated_nth)
  qed
  have lines: "stdout_lines (drop (length (outs w)) (outs (snd (visitor order a w)))) = ?L"
    if "\<forall>F \<in> set ?K. CHR 0x0A \<notin> set (getName (modul w ! F))"
  proof -
    from that s have "\<forall>l \<in> set ?L. CHR 0x0A \<notin> set l" by auto
    then have "stdout_lines ?L = ?L" by (rule stdout_lines_no_line_feed)
    then show ?thesis by (simp add: o)
  qed
  have l: "length (modul (snd (visitor order a w))) = length (resolved_unit (modul w))"
    by (simp add: m)
  show ?thesis
    unfolding K using d s o inside beyond lines len l unfolding K by simp
qed

theorem one_diagnostic_per_annotated_function_witness:
  "enumerates rev \<and>
   fst (visitor rev amdgpu_attr unit_address_taken) = [0, 1] \<and>
   outs (snd (visitor rev amdgpu_attr unit_address_taken)) =
     [''Kernel entry function helper'', ''Kernel entry function F''] \<and>
   stdout_lines (outs (snd (visitor rev amdgpu_attr unit_address_taken))) =
     [''Kernel entry function helper'', ''Kernel entry function F''] \<and>
   map fnAttrs (modul (snd (visitor rev amdgpu_attr unit_address_taken))) =
     [[amdgpu_attr], [amdgpu_attr], [], []] \<and>
   outs (snd (visitor rev amdgpu_attr unit_ABC)) = [''Kernel entry function A''] \<and>
   map fnAttrs (modul (snd (visitor rev amdgpu_attr unit_ABC))) =
     [[amdgpu_attr], [], [], [], []]"
proof -
  have e: "enumerates rev" by (simp add: enumerates_def)
  have v: "fst (visitor rev amdgpu_attr unit_address_taken) = [0, 1] \<and>
   outs (snd (visitor rev amdgpu_attr unit_address_taken)) =
     [''Kernel entry function helper'', ''Kernel entry function F''] \<and>
   stdout_lines (outs (snd (visitor rev amdgpu_attr unit_address_taken))) =
     [''Kernel entry function helper'', ''Kernel entry function F''] \<and>
   map fnAttrs (modul (snd (visitor rev amdgpu_attr unit_address_taken))) =
     [[amdgpu_attr], [amdgpu_attr], [], []] \<and>
   outs (snd (visitor rev amdgpu_attr unit_ABC)) = [''Kernel entry function A''] \<and>
   map fnAttrs (modul (snd (visitor rev amdgpu_attr unit_ABC))) =
     [[amdgpu_attr], [], [], [], []]"
    by code_simp
  show ?thesis
    using one_diagnostic_per_annotated_function [OF e, of amdgpu_attr unit_address_taken]
      one_diagnostic_per_annotated_function [OF e, of amdgpu_attr unit_ABC] e v
    by (elim conjE) (intro conjI; assumption)
qed

text \<open>
  C9, as stated, fails: \<open>unit_nine\<close> has nine kernel entries, stored as \<open>a\<close> to \<open>i\<close>,
  one more than the pointer set keeps in insertion order. In a layout where a function
  stored later falls into an earlier bucket, the run writes the lines from \<open>i\<close> down to
  \<open>a\<close>.
\<close>

theorem stored_order_diagnostics_counterexample:
  "enumerates (bucket_order later_first) \<and>
   insertion_order_up_to 8 (bucket_order later_first) \<and>
   fst (visitor (bucket_order later_first) amdgpu_attr unit_nine) = [0, 1, 2, 3, 4, 5, 6, 7, 8] \<and>
   outs (snd (visitor (bucket_order later_first) amdgpu_attr unit_nine)) =
     [''Kernel entry function i'', ''Kernel entry function h'', ''Kernel entry function g'',
      ''Kernel entry function f'', ''Kernel entry function e'', ''Kernel entry function d'',
      ''Kernel entry function c'', ''Kernel entry function b'', ''Kernel entry function a'']"
proof -
  have k: "kernel_entries (modul unit_nine) = [0, 1, 2, 3, 4, 5, 6, 7, 8]"
    by code_simp
  have b: "bucket_order later_first [0, 1, 2, 3, 4, 5, 6, 7, 8] = [8, 7, 6, 5, 4, 3, 2, 1, 0]"
    by code_simp
  have n: "outs unit_nine @
      map (\<lambda>F. diagnostic (getName (modul unit_nine ! F))) [8, 7, 6, 5, 4, 3, 2, 1, 0] =
     [''Kernel entry function i'', ''Kernel entry function h'', ''Kernel entry function g'',
      ''Kernel entry function f'', ''Kernel entry function e'', ''Kernel entry function d'',
      ''Kernel entry function c'', ''Kernel entry function b'', ''Kernel entry function a'']"
    by code_simp
  have 1: "fst (visitor (bucket_order later_first) amdgpu_attr unit_nine) =
      [0, 1, 2, 3, 4, 5, 6, 7, 8]"
    by (simp only: visitor_eq fst_conv k)
  have 2: "outs (snd (visitor (bucket_order later_first) amdgpu_attr unit_nine)) =
     [''Kernel entry function i'', ''Kernel entry function h'', ''Kernel entry function g'',
      ''Kernel entry function f'', ''Kernel entry function e'', ''Kernel entry function d'',
      ''Kernel entry function c'', ''Kernel entry function b'', ''Kernel entry function a'']"
    by (simp only: outs_visitor [OF enumerates_bucket_order] k b n)
  from enumerates_bucket_order insertion_order_bucket_order 1 2
  show ?thesis by (intro conjI)
qed

text \<open>
  C9, amended: the functions enter \<open>KernelEntryFunctions\<close> in the unit's stored function
  order, and the diagnostic lines are written in the order in which the pointer set hands
  its elements out. That is the stored function order whenever the set iterates in order
  of insertion, which a set that keeps up to eight elements in insertion order does for a
  run that annotates at most eight functions.
\<close>

theorem diagnostics_follow_set_iteration:
  assumes "enumerates order"
  shows "fst (visitor order a w) =
           filter (\<lambda>F. references (modul w) F OMPRTL___kmpc_target_init \<and>
                       references (modul w) F OMPRTL___kmpc_target_deinit)
             [0..<length (modul w)] \<and>
         outs (snd (visitor order a w)) =
           outs w @ map (\<lambda>F. diagnostic (getName (modul w ! F))) (order (fst (visitor order a w))) \<and>
         outs (snd (visitor id a w)) =
           outs w @ map (\<lambda>F. diagnostic (getName (modul w ! F)))
             (filter (\<lambda>F. references (modul w) F OMPRTL___kmpc_target_init \<and>
                         references (modul w) F OMPRTL___kmpc_target_deinit)
               [0..<length (modul w)]) \<and>
         (insertion_order_up_to 8 order \<and> length (fst (visitor order a w)) \<le> 8 \<longrightarrow>
            outs (snd (visitor order a w)) =
              outs w @ map (\<lambda>F. diagnostic (getName (modul w ! F)))
                (filter (\<lambda>F. references (modul w) F OMPRTL___kmpc_target_init \<and>
                            references (modul w) F OMPRTL___kmpc_target_deinit)
                  [0..<length (modul w)]))"
proof (intro conjI impI)
  show "fst (visitor order a w) =
      filter (\<lambda>F. references (modul w) F OMPRTL___kmpc_target_init \<and>
                  references (modul w) F OMPRTL___kmpc_target_deinit) [0..<length (modul w)]"
    by (simp add: visitor_eq kernel_entries_stored_order)
  show "outs (snd (visitor order a w)) =
      outs w @ map (\<lambda>F. diagnostic (getName (modul w ! F))) (order (fst (visitor order a w)))"
    using outs_visitor [OF assms, of a w] by (simp add: visitor_eq)
  show "outs (snd (visitor id a w)) =
      outs w @ map (\<lambda>F. diagnostic (getName (modul w ! F)))
        (filter (\<lambda>F. references (modul w) F OMPRTL___kmpc_target_init \<and>
                    references (modul w) F OMPRTL___kmpc_target_deinit) [0..<length (modul w)])"
    using outs_visitor [OF enumerates_id, of a w] by (simp add: kernel_entries_stored_order)
next
  assume "insertion_order_up_to 8 order \<and> length (fst (visitor order a w)) \<le> 8"
  then have "order (kernel_entries (modul w)) = kernel_entries (modul w)"
    by (simp add: insertion_order_up_to_def visitor_eq)
  then show "outs (snd (visitor order a w)) =
      outs w @ map (\<lambda>F. diagnostic (getName (modul w ! F)))
        (filter (\<lambda>F. references (modul w) F OMPRTL___kmpc_target_init \<and>
                    references (modul w) F OMPRTL___kmpc_target_deinit) [0..<length (modul w)])"
    using outs_visitor [OF assms, of a w] by (simp add: kernel_entries_stored_order)
qed

theorem diagnostics_follow_set_iteration_witness:
  "enumerates (bucket_order later_first) \<and>
   insertion_order_up_to 8 (bucket_order later_first) \<and>
   fst (visitor (bucket_order later_first) amdgpu_attr unit_AB) = [0, 1] \<and>
   length (fst (visitor (bucket_order later_first) amdgpu_attr unit_AB)) \<le> 8 \<and>
   outs (snd (visitor (bucket_order later_first) amdgpu_attr unit_AB)) =
     [''Kernel entry function A'', ''Kernel entry function B''] \<and>
   outs (snd (visitor id amdgpu_attr unit_AB)) =
     [''Kernel entry function A'', ''Kernel entry function B'']"
proof -
  have e: "enumerates (bucket_order later_first)" by (rule enumerates_bucket_order)
  have i: "insertion_order_up_to 8 (bucket_order later_first)"
    by (rule insertion_order_bucket_order)
  have v: "fst (visitor (bucket_order later_first) amdgpu_attr unit_AB) = [0, 1] \<and>
   length (fst (visitor (bucket_order later_first) amdgpu_attr unit_AB)) \<le> 8 \<and>
   outs (snd (visitor (bucket_order later_first) amdgpu_attr unit_AB)) =
     [''Kernel entry function A'', ''Kernel entry function B''] \<and>
   outs (snd (visitor id amdgpu_attr unit_AB)) =
     [''Kernel entry function A'', ''Kernel entry function B'']"
    by code_simp
  show ?thesis
    using diagnostics_follow_set_iteration [OF e, of amdgpu_attr unit_AB] e i v
    by (elim conjE) (intro conjI; assumption)
qed

section \<open>Running the pass again\<close>

text \<open>
  C3, as stated, fails: the second run on \<open>unit_ABC\<close> writes the line of \<open>A\<close> again, so
  the output holds it twice.
\<close>

theorem second_run_diagnostics_counterexample:
  "outs (snd (visitor id amdgpu_attr unit_ABC)) = [''Kernel entry function A''] \<and>
   outs (snd (visitor id amdgpu_attr (snd (visitor id amdgpu_attr unit_ABC)))) =
     [''Kernel entry function A'', ''Kernel entry function A'']"
  by code_simp

text \<open>
  C3, amended: a second run on the unit the first run left behind finds the same
  \<open>KernelEntryFunctions\<close> and leaves the module as it was, so no attribute is added
  twice; it writes the diagnostic line of every kernel entry once more.
\<close>

theorem second_run:
  assumes "enumerates order"
  shows "fst (visitor order a (snd (visitor order a w))) = fst (visitor order a w) \<and>
         modul (snd (visitor order a (snd (visitor order a w)))) =
           modul (snd (visitor order a w)) \<and>
         outs (snd (visitor order a (snd (visitor order a w)))) =
           outs (snd (visitor order a w)) @
             map (\<lambda>F. diagnostic (getName (modul w ! F))) (order (fst (visitor order a w)))"
proof -
  let ?K = "kernel_entries (modul w)"
  let ?A = "annotated a (set ?K) (resolved_unit (modul w))"
  have m1: "modul (snd (visitor order a w)) = ?A"
    by (rule modul_visitor [OF assms])
  have K2: "kernel_entries ?A = ?K"
    by (rule kernel_entries_annotated)
  have sub: "set (order ?K) \<subseteq> set ?K"
    using enumeratesD [OF assms, of ?K] by simp
  have names: "map (\<lambda>F. diagnostic (getName (?A ! F))) (order ?K) =
      map (\<lambda>F. diagnostic (getName (modul w ! F))) (order ?K)"
  proof (rule map_cong [OF refl])
    fix F
    assume "F \<in> set (order ?K)"
    with sub have F: "F < length (modul w)" by (auto dest: kernel_entries_less)
    then have "F < length (resolved_unit (modul w))"
      using length_resolved_unit [of "modul w"] by simp
    then show "diagnostic (getName (?A ! F)) = diagnostic (getName (modul w ! F))"
      by (simp add: annotated_nth resolved_unit_nth [OF F])
  qed
  have 1: "fst (visitor order a (snd (visitor order a w))) = fst (visitor order a w)"
    by (simp add: visitor_eq [of order a "snd (visitor order a w)"] m1 K2)
      (simp add: visitor_eq)
  have 2: "modul (snd (visitor order a (snd (visitor order a w)))) = ?A"
    by (simp add: modul_visitor [OF assms, of a "snd (visitor order a w)"] m1 K2
        resolved_unit_annotated)
  have 3: "outs (snd (visitor order a (snd (visitor order a w)))) =
      outs (snd (visitor order a w)) @
        map (\<lambda>F. diagnostic (getName (modul w ! F))) (order ?K)"
    by (simp add: outs_visitor [OF assms, of a "snd (visitor order a w)"] m1 K2 names)
  from 1 2 3 m1 show ?thesis by (simp add: visitor_eq [of order a w])
qed

theorem second_run_witness:
  "enumerates rev \<and>
   fst (visitor rev amdgpu_attr (snd (visitor rev amdgpu_attr unit_AB))) = [0, 1] \<and>
   fst (visitor rev amdgpu_attr unit_AB) = [0, 1] \<and>
   map fnAttrs (modul (snd (visitor rev amdgpu_attr (snd (visitor rev amdgpu_attr unit_AB))))) =
     [[amdgpu_attr], [amdgpu_attr], [], []] \<and>
   outs (snd (visitor rev amdgpu_attr (snd (visitor rev amdgpu_attr unit_AB)))) =
     [''Kernel entry function B'', ''Kernel entry function A'',
      ''Kernel entry function B'', ''Kernel entry function A'']"
proof -
  have e: "enumerates rev" by (simp add: enumerates_def)
  have "fst (visitor rev amdgpu_attr (snd (visitor rev amdgpu_attr unit_AB))) = [0, 1] \<and>
   fst (visitor rev amdgpu_attr unit_AB) = [0, 1] \<and>
   map fnAttrs (modul (snd (visitor rev amdgpu_attr (snd (visitor rev amdgpu_attr unit_AB))))) =
     [[amdgpu_attr], [amdgpu_attr], [], []] \<and>
   outs (snd (visitor rev amdgpu_attr (snd (visitor rev amdgpu_attr unit_AB)))) =
     [''Kernel entry function B'', ''Kernel entry function A'',
      ''Kernel entry function B'', ''Kernel entry function A'']"
    by code_simp
  with e second_run [OF e, of amdgpu_attr unit_AB] show ?thesis by simp
qed

section \<open>Resolving the markers\<close>

text \<open>
  C7, as stated, fails: on \<open>unit_ABC\<close>, a unit of five functions, each marker is resolved
  five times, once in every classification query; on the unit without functions no marker
  is resolved at all.
\<close>

theorem resolved_once_counterexample:
  "rt_calls (snd (visitor id amdgpu_attr unit_ABC)) =
     [(OMPRTL___kmpc_target_init, 3), (OMPRTL___kmpc_target_deinit, 4),
      (OMPRTL___kmpc_target_init, 3), (OMPRTL___kmpc_target_deinit, 4),
      (OMPRTL___kmpc_target_init, 3), (OMPRTL___kmpc_target_deinit, 4),
      (OMPRTL___kmpc_target_init, 3), (OMPRTL___kmpc_target_deinit, 4),
      (OMPRTL___kmpc_target_init, 3), (OMPRTL___kmpc_target_deinit, 4)] \<and>
   rt_calls (snd (visitor id amdgpu_attr unit_empty)) = []"
  by code_simp

text \<open>
  C7, amended: a run resolves the init marker and then the deinit marker in every
  classification query, that is once for each function of the unit it leaves behind (the
  declarations it created included) and never for a unit without functions; every query
  of the run gets the same two declarations, which carry the names of the markers.
\<close>

theorem markers_resolved_in_every_query:
  "rt_calls (snd (visitor order a w)) =
     rt_calls w @
       concat (replicate (length (modul (snd (visitor order a w))))
         [(OMPRTL___kmpc_target_init,
             callee_of (modul (snd (visitor order a w))) OMPRTL___kmpc_target_init),
          (OMPRTL___kmpc_target_deinit,
             callee_of (modul (snd (visitor order a w))) OMPRTL___kmpc_target_deinit)]) \<and>
   (modul w \<noteq> [] \<longrightarrow>
      Module_getFunction (modul (snd (visitor order a w))) (RuntimeFunction_name FnID) =
        Some (callee_of (modul (snd (visitor order a w))) FnID))"
proof -
  let ?A = "annotated a (set (order (kernel_entries (modul w)))) (resolved_unit (modul w))"
  have m: "modul (snd (visitor order a w)) = ?A" by (simp add: visitor_eq)
  have q: "query_calls ?A = query_calls (resolved_unit (modul w))"
    by (rule query_calls_annotated)
  have 1: "rt_calls (snd (visitor order a w)) =
      rt_calls w @ concat (replicate (length ?A) (query_calls ?A))"
    unfolding q by (simp add: visitor_eq)
  have 2: "Module_getFunction ?A (RuntimeFunction_name FnID) = Some (callee_of ?A FnID)"
    if "modul w \<noteq> []"
  proof -
    have "Module_getFunction ?A (RuntimeFunction_name FnID) =
        Module_getFunction (resolved_unit (modul w)) (RuntimeFunction_name FnID)"
      by (rule Module_getFunction_names) simp
    then have "Module_getFunction ?A (RuntimeFunction_name FnID) =
        Module_getFunction (resolve (modul w)) (RuntimeFunction_name FnID)"
      using that by (simp add: resolved_unit_def)
    with declared_resolve [of "modul w" FnID] show ?thesis
      by (auto simp: callee_of_def)
  qed
  from 1 2 show ?thesis unfolding m query_calls_def by simp
qed

theorem markers_resolved_in_every_query_witness:
  "modul unit_no_markers \<noteq> [] \<and>
   map getName (modul (snd (visitor id amdgpu_attr unit_no_markers))) =
     [''f'', ''g'', ''__kmpc_target_init'', ''__kmpc_target_deinit''] \<and>
   rt_calls (snd (visitor id amdgpu_attr unit_no_markers)) =
     [(OMPRTL___kmpc_target_init, 2), (OMPRTL___kmpc_target_deinit, 3),
      (OMPRTL___kmpc_target_init, 2), (OMPRTL___kmpc_target_deinit, 3),
      (OMPRTL___kmpc_target_init, 2), (OMPRTL___kmpc_target_deinit, 3),
      (OMPRTL___kmpc_target_init, 2), (OMPRTL___kmpc_target_deinit, 3)] \<and>
   Module_getFunction (modul (snd (visitor id amdgpu_attr unit_no_markers)))
     (RuntimeFunction_name OMPRTL___kmpc_target_deinit) = Some 3"
  using markers_resolved_in_every_query
    [of id amdgpu_attr unit_no_markers OMPRTL___kmpc_target_deinit]
  by code_simp

end
